theory Spec2Isabelle
  imports Main "HOL-Library.List_Lexorder" "HOL-Library.Char_ord"
begin

section \<open>The room page of yerasser/alice: data model\<close>

text \<open>
  The development embeds the component \<^verbatim>\<open>RoomPage\<close> (src/pages/RoomPage.jsx, lines 6-131):
  its state and references, and the effect of lines 29-131 with the asynchronous
  \<^verbatim>\<open>init\<close>, the presence handler, the change handler, the timer callback and the cleanup
  function. A callback is a function on what its closure can reach: the state of the
  component and the variables of the run of the effect that created it. The component
  keeps one record of variables for every run of the effect, since a callback of an
  earlier run can still be called after that run was cleaned up. The events form a
  datatype, a render is one of them, and a lifetime of the component is a fold over a
  list of events.

  Strings of the program are \<^typ>\<open>string\<close>. Client identities are compared by the default
  comparison of \<^verbatim>\<open>Array.prototype.sort\<close>, which orders strings by their code units; the
  identities the page generates (\<^verbatim>\<open>crypto.randomUUID()\<close> or digits, a dash and hexadecimal
  digits) are ASCII, where that order is the lexicographic order of characters used here.
\<close>

type_synonym client_id = string

text \<open>\<^verbatim>\<open>phase\<close>, line 10: \<^verbatim>\<open>waiting | intro | rules\<close>; no other value is ever set.\<close>

datatype phase = Waiting | Intro | Rules

text \<open>
  A row of table \<^verbatim>\<open>rooms\<close>, with the columns the page reads: \<^verbatim>\<open>id\<close> (line 141),
  \<^verbatim>\<open>status\<close>, \<^verbatim>\<open>required_players\<close>, \<^verbatim>\<open>game_title\<close>, \<^verbatim>\<open>suit\<close>, \<^verbatim>\<open>game_name\<close>
  and \<^verbatim>\<open>rules\<close> (lines 157-167).
\<close>

record room =
  room_id :: string
  status :: string
  required_players :: int
  game_title :: string
  suit :: string
  game_name :: string
  rules :: string

datatype jsval = JStr string | JNum int

text \<open>
  A request \<^verbatim>\<open>supabase.from(t).update(o).eq(c, v)\<close>: the table, the properties of the
  object \<^verbatim>\<open>o\<close> and the equality filters, each in the order written.
\<close>

record update_request =
  table :: string
  set_cols :: "(string \<times> jsval) list"
  eq_filters :: "(string \<times> jsval) list"

text \<open>
  What every callback of the component can reach, whichever run of the effect created
  it. \<^verbatim>\<open>clientId\<close>, \<^verbatim>\<open>room\<close>, \<^verbatim>\<open>phase\<close> and \<^verbatim>\<open>playersCount\<close> are the component's state
  (lines 9-19; a setter is modelled as storing the value), \<^verbatim>\<open>roomRef\<close> and \<^verbatim>\<open>phaseRef\<close>
  the two references the handlers read (lines 21-22). The remaining fields are the
  environment: the timeouts that are scheduled and have neither fired nor been cleared
  (handle and delay in milliseconds; the callback is always that of lines 52 and 108),
  the handle the next \<^verbatim>\<open>setTimeout\<close> returns, the update requests sent so far, how many of
  them have not settled, the identities announced by \<^verbatim>\<open>channel.track\<close>, and the lines
  written by \<^verbatim>\<open>console.error\<close> (label and error).
\<close>

record page_state =
  clientId :: client_id
  room :: "room option"
  phase :: phase
  playersCount :: nat
  roomRef :: "room option"
  phaseRef :: phase
  timers :: "(nat \<times> nat) list"
  next_handle :: nat
  requests :: "update_request list"
  in_flight :: nat
  tracked :: "client_id list"
  console :: "(string \<times> string) list"

text \<open>
  The closure of a callback: the above, and what belongs to one run of the effect.
  \<^verbatim>\<open>roomId\<close> is the parameter the run was started for, \<^verbatim>\<open>introTimeout\<close> and \<^verbatim>\<open>channel\<close>
  are the two local variables of lines 32-33 (\<open>None\<close> is \<^verbatim>\<open>null\<close>), \<open>awaiting\<close> says
  that the \<^verbatim>\<open>await\<close> of line 37 is still pending, and \<open>removed\<close> that the channel of
  this run has been removed.
\<close>

record client = page_state +
  roomId :: string
  introTimeout :: "nat option"
  channel :: "(string \<times> client_id) option"
  awaiting :: bool
  removed :: bool

text \<open>The part of a closure that belongs to one run of the effect.\<close>

record effect_run =
  run_roomId :: string
  run_introTimeout :: "nat option"
  run_channel :: "(string \<times> client_id) option"
  run_awaiting :: bool
  run_removed :: bool

text \<open>
  A mounted component: the state all callbacks share, the runs of its effect in the
  order they were started (the last one is the current run), and whether the component
  is still mounted.
\<close>

record page =
  shared :: page_state
  effects :: "effect_run list"
  mounted :: bool

definition closure :: "page_state \<Rightarrow> effect_run \<Rightarrow> client" where
  "closure st v =
     \<lparr>clientId = clientId st, room = room st, phase = phase st,
      playersCount = playersCount st, roomRef = roomRef st, phaseRef = phaseRef st,
      timers = timers st, next_handle = next_handle st, requests = requests st,
      in_flight = in_flight st, tracked = tracked st, console = console st,
      roomId = run_roomId v, introTimeout = run_introTimeout v, channel = run_channel v,
      awaiting = run_awaiting v, removed = run_removed v\<rparr>"

definition page_of :: "client \<Rightarrow> page_state" where
  "page_of s =
     \<lparr>clientId = clientId s, room = room s, phase = phase s,
      playersCount = playersCount s, roomRef = roomRef s, phaseRef = phaseRef s,
      timers = timers s, next_handle = next_handle s, requests = requests s,
      in_flight = in_flight s, tracked = tracked s, console = console s\<rparr>"

definition run_of :: "client \<Rightarrow> effect_run" where
  "run_of s =
     \<lparr>run_roomId = roomId s, run_introTimeout = introTimeout s, run_channel = channel s,
      run_awaiting = awaiting s, run_removed = removed s\<rparr>"

text \<open>What the callbacks of the \<open>k\<close>-th run see, and what one of them leaves behind.\<close>

definition view :: "page \<Rightarrow> nat \<Rightarrow> client" where
  "view p k = closure (shared p) (effects p ! k)"

definition commit :: "nat \<Rightarrow> client \<Rightarrow> page \<Rightarrow> page" where
  "commit k s p = p\<lparr>shared := page_of s, effects := (effects p)[k := run_of s]\<rparr>"

text \<open>
  The effect of lines 29-131 starts a run for a room: line 30 returns at once when
  \<^verbatim>\<open>roomId\<close> is falsy, otherwise it declares the two variables and calls \<^verbatim>\<open>init()\<close>,
  which runs up to its \<^verbatim>\<open>await\<close>.
\<close>

definition new_effect :: "string \<Rightarrow> effect_run" where
  "new_effect rid =
     \<lparr>run_roomId = rid, run_introTimeout = None, run_channel = None,
      run_awaiting = (rid \<noteq> []), run_removed = False\<rparr>"

text \<open>
  The component when it has just been mounted for a room: lines 9-11 and 21-22, and the
  first run of the effect. Timer handles are positive integers, so the first is 1.
\<close>

definition mount :: "string \<Rightarrow> client_id \<Rightarrow> page" where
  "mount rid cid =
     \<lparr>shared =
        \<lparr>clientId = cid, room = None, phase = Waiting, playersCount = 0,
         roomRef = None, phaseRef = Waiting, timers = [], next_handle = 1,
         requests = [], in_flight = 0, tracked = [], console = []\<rparr>,
      effects = [new_effect rid], mounted = True\<rparr>"

section \<open>Timers\<close>

text \<open>
  \<^verbatim>\<open>introTimeout = setTimeout(() => setPhase('rules'), d)\<close>: a new pending timeout whose
  handle is stored in the variable.
\<close>

definition setTimeout_rules :: "nat \<Rightarrow> client \<Rightarrow> client" where
  "setTimeout_rules d s =
     s\<lparr>introTimeout := Some (next_handle s),
       timers := timers s @ [(next_handle s, d)],
       next_handle := Suc (next_handle s)\<rparr>"

text \<open>\<^verbatim>\<open>clearTimeout(h)\<close>: the timeout with that handle, if still pending, never fires.\<close>

definition clearTimeout :: "nat \<Rightarrow> 'a page_state_scheme \<Rightarrow> 'a page_state_scheme" where
  "clearTimeout h s = s\<lparr>timers := filter (\<lambda>t. fst t \<noteq> h) (timers s)\<rparr>"

text \<open>
  \<^verbatim>\<open>if (introTimeout) clearTimeout(introTimeout)\<close>, lines 107 and 128: \<^verbatim>\<open>null\<close> and the
  number 0 are falsy.
\<close>

definition clear_introTimeout :: "client \<Rightarrow> client" where
  "clear_introTimeout s =
     (case introTimeout s of
        None \<Rightarrow> s
      | Some h \<Rightarrow> if h \<noteq> 0 then clearTimeout h s else s)"

text \<open>
  The callback of the timeout, \<^verbatim>\<open>() => setPhase('rules')\<close>; it reaches the state of the
  component only.
\<close>

definition timeout_callback :: "'a page_state_scheme \<Rightarrow> 'a page_state_scheme" where
  "timeout_callback s = s\<lparr>phase := Rules\<rparr>"

section \<open>The callbacks\<close>

text \<open>
  The continuation of \<^verbatim>\<open>init\<close> after the \<^verbatim>\<open>await\<close>, lines 43-122: the read gave either
  an error or the row. Registering the handlers and subscribing is the creation of the
  channel, named \<^verbatim>\<open>room-${roomId}\<close> with the client's identity as its presence key.
\<close>

fun init_resolved :: "string + room \<Rightarrow> client \<Rightarrow> client" where
  "init_resolved (Inl error) s =
     s\<lparr>console := console s @ [(''load room error'', error)]\<rparr>"
| "init_resolved (Inr data) s =
     (let s1 = s\<lparr>room := Some data\<rparr>;
          s2 = (if status data = ''started''
                then setTimeout_rules 5000 (s1\<lparr>phase := Intro\<rparr>)
                else s1)
      in s2\<lparr>channel := Some (''room-'' @ roomId s2, clientId s2)\<rparr>)"

text \<open>\<^verbatim>\<open>[...ids].sort()[0]\<close>, line 74; \<^verbatim>\<open>undefined\<close> on the empty array is \<open>None\<close>.\<close>

definition smallestId :: "client_id list \<Rightarrow> client_id option" where
  "smallestId ids = (case sort ids of [] \<Rightarrow> None | x # _ \<Rightarrow> Some x)"

text \<open>The request of lines 77-80.\<close>

definition start_request :: "string \<Rightarrow> update_request" where
  "start_request rid =
     \<lparr>table = ''rooms'', set_cols = [(''status'', JStr ''started'')],
      eq_filters = [(''id'', JStr rid)]\<rparr>"

definition send_update :: "client \<Rightarrow> client" where
  "send_update s =
     s\<lparr>requests := requests s @ [start_request (roomId s)],
       in_flight := Suc (in_flight s)\<rparr>"

text \<open>The presence handler, lines 63-86; \<open>ids\<close> are the keys of the presence state.\<close>

definition presence_sync :: "client_id list \<Rightarrow> client \<Rightarrow> client" where
  "presence_sync ids s =
     (let count = length ids;
          s1 = s\<lparr>playersCount := count\<rparr>
      in case roomRef s1 of
           None \<Rightarrow> s1
         | Some r \<Rightarrow>
             if status r = ''waiting'' \<and> required_players r \<le> int count
             then (if smallestId ids = Some (clientId s1) then send_update s1 else s1)
             else s1)"

text \<open>
  The callback of the update request, lines 81-83; it reaches the console only.
\<close>

definition update_settled :: "string option \<Rightarrow> 'a page_state_scheme \<Rightarrow> 'a page_state_scheme" where
  "update_settled updError s =
     (let s1 = s\<lparr>in_flight := in_flight s - 1\<rparr>
      in case updError of
           None \<Rightarrow> s1
         | Some e \<Rightarrow> s1\<lparr>console := console s1 @ [(''update room error'', e)]\<rparr>)"

text \<open>The change handler, lines 97-114; \<open>newRoom\<close> is \<^verbatim>\<open>payload.new\<close>.\<close>

definition postgres_changes :: "room \<Rightarrow> client \<Rightarrow> client" where
  "postgres_changes newRoom s =
     (let s1 = s\<lparr>room := Some newRoom\<rparr>;
          s2 = (if status newRoom = ''started'' \<and> phaseRef s1 \<noteq> Intro \<and> phaseRef s1 \<noteq> Rules
                then setTimeout_rules 5000 (clear_introTimeout (s1\<lparr>phase := Intro\<rparr>))
                else s1)
      in if status newRoom = ''waiting'' then s2\<lparr>phase := Waiting\<rparr> else s2)"

text \<open>The callback of \<^verbatim>\<open>channel.subscribe\<close>, lines 117-122.\<close>

definition subscribe_callback :: "string \<Rightarrow> client \<Rightarrow> client" where
  "subscribe_callback st s =
     (if st = ''SUBSCRIBED'' then s\<lparr>tracked := tracked s @ [clientId s]\<rparr> else s)"

text \<open>The cleanup function of the effect, lines 127-130.\<close>

definition cleanup :: "client \<Rightarrow> client" where
  "cleanup s =
     (let s1 = clear_introTimeout s
      in case channel s1 of None \<Rightarrow> s1 | Some c \<Rightarrow> s1\<lparr>removed := True\<rparr>)"

section \<open>Events and lifetimes\<close>

text \<open>
  Lines 23-27: a render stores the phase in \<^verbatim>\<open>phaseRef\<close>, and the effect that follows it
  stores the room in \<^verbatim>\<open>roomRef\<close>. React renders some time after a setter was called, so a
  render is an event of its own: a callback that runs before it reads the references as
  the last render left them.
\<close>

definition render :: "'a page_state_scheme \<Rightarrow> 'a page_state_scheme" where
  "render s = s\<lparr>phaseRef := phase s, roomRef := room s\<rparr>"

text \<open>What the environment can call in the closure of one run of the effect.\<close>

datatype callback =
    InitResolved "string + room"
  | PresenceSync "client_id list"
  | PostgresChanges room
  | SubscribeStatus string

text \<open>The handlers of a channel are called while the channel exists and is not removed.\<close>

definition listening :: "client \<Rightarrow> bool" where
  "listening s = (channel s \<noteq> None \<and> \<not> removed s)"

text \<open>
  The continuation of \<^verbatim>\<open>init\<close> runs once, when the read resolves, whether or not the
  run has been cleaned up in the meantime: the source has no check after the
  \<^verbatim>\<open>await\<close>. A handler of the channel runs only while the channel listens. Any other
  call leaves the state as it is.
\<close>

fun deliver :: "callback \<Rightarrow> client \<Rightarrow> client" where
  "deliver (InitResolved res) s =
     (if awaiting s then init_resolved res (s\<lparr>awaiting := False\<rparr>) else s)"
| "deliver (PresenceSync ids) s = (if listening s then presence_sync ids s else s)"
| "deliver (PostgresChanges newRoom) s =
     (if listening s then postgres_changes newRoom s else s)"
| "deliver (SubscribeStatus st) s = (if listening s then subscribe_callback st s else s)"

text \<open>
  The events of a component: a callback of its \<open>k\<close>-th run of the effect, a timeout
  firing, an update request settling, a render, the route parameter \<^verbatim>\<open>roomId\<close> changing
  while the component stays mounted (line 131: the effect depends on it), and the
  unmount.
\<close>

datatype event =
    Call nat callback
  | TimerFired nat
  | UpdateSettled "string option"
  | Render
  | ChangeRoom string
  | Unmount

text \<open>React calls the cleanup function of the current run, the last one started.\<close>

definition cleanup_current :: "page \<Rightarrow> page" where
  "cleanup_current p =
     (if effects p = [] then p
      else commit (length (effects p) - 1) (cleanup (view p (length (effects p) - 1))) p)"

definition start_effect :: "string \<Rightarrow> page \<Rightarrow> page" where
  "start_effect rid p = p\<lparr>effects := effects p @ [new_effect rid]\<rparr>"

text \<open>
  A timeout fires only while it is pending and is no longer pending afterwards; the
  callback of a request runs only for a request in flight. A change of \<^verbatim>\<open>roomId\<close> to a
  different value renders the component, cleans the current run up and starts a new one;
  the state of the component is kept. Nothing renders a component that is unmounted; a
  callback that is called after the unmount still runs, and what its setters store is
  kept here although it is never shown.
\<close>

fun step :: "page \<Rightarrow> event \<Rightarrow> page" where
  "step p (Call k cb) =
     (if k < length (effects p) then commit k (deliver cb (view p k)) p else p)"
| "step p (TimerFired h) =
     (if h \<in> fst ` set (timers (shared p))
      then p\<lparr>shared := timeout_callback (clearTimeout h (shared p))\<rparr> else p)"
| "step p (UpdateSettled e) =
     (if 0 < in_flight (shared p) then p\<lparr>shared := update_settled e (shared p)\<rparr> else p)"
| "step p Render = (if mounted p then p\<lparr>shared := render (shared p)\<rparr> else p)"
| "step p (ChangeRoom rid) =
     (if mounted p \<and> effects p \<noteq> [] \<and> rid \<noteq> run_roomId (last (effects p))
      then start_effect rid (cleanup_current (p\<lparr>shared := render (shared p)\<rparr>))
      else p)"
| "step p Unmount = (if mounted p then (cleanup_current p)\<lparr>mounted := False\<rparr> else p)"

definition run :: "event list \<Rightarrow> page \<Rightarrow> page" where
  "run evs p = foldl step p evs"

text \<open>The rooms a list of events changes to.\<close>

fun room_changes :: "event list \<Rightarrow> string list" where
  "room_changes [] = []"
| "room_changes (ChangeRoom rid # evs) = rid # room_changes evs"
| "room_changes (_ # evs) = room_changes evs"

text \<open>
  A lifetime in which the route parameter never changes: no \<open>ChangeRoom\<close>, and every
  callback satisfies \<open>ok\<close>.
\<close>

fun quiet :: "(callback \<Rightarrow> bool) \<Rightarrow> event \<Rightarrow> bool" where
  "quiet ok (Call k cb) = ok cb"
| "quiet ok (ChangeRoom rid) = False"
| "quiet ok _ = True"


section \<open>The room store\<close>

text \<open>
  Modelled from the spec: the update of the Room State Store, an external service
  (section 6: an unconditional field-set update, filtered by primary key only). A row is
  changed only when every filter holds on it, and then each listed column is set.
\<close>

definition column :: "string \<Rightarrow> room \<Rightarrow> jsval option" where
  "column c r =
     (if c = ''id'' then Some (JStr (room_id r))
      else if c = ''status'' then Some (JStr (status r))
      else if c = ''required_players'' then Some (JNum (required_players r))
      else if c = ''game_title'' then Some (JStr (game_title r))
      else if c = ''suit'' then Some (JStr (suit r))
      else if c = ''game_name'' then Some (JStr (game_name r))
      else if c = ''rules'' then Some (JStr (rules r))
      else None)"

fun set_column :: "room \<Rightarrow> string \<times> jsval \<Rightarrow> room" where
  "set_column r (c, JStr v) =
     (if c = ''id'' then r\<lparr>room_id := v\<rparr>
      else if c = ''status'' then r\<lparr>status := v\<rparr>
      else if c = ''game_title'' then r\<lparr>game_title := v\<rparr>
      else if c = ''suit'' then r\<lparr>suit := v\<rparr>
      else if c = ''game_name'' then r\<lparr>game_name := v\<rparr>
      else if c = ''rules'' then r\<lparr>rules := v\<rparr>
      else r)"
| "set_column r (c, JNum n) =
     (if c = ''required_players'' then r\<lparr>required_players := n\<rparr> else r)"

definition store_update :: "update_request \<Rightarrow> room \<Rightarrow> room" where
  "store_update u r =
     (if list_all (\<lambda>f. column (fst f) r = Some (snd f)) (eq_filters u)
      then foldl set_column r (set_cols u)
      else r)"

text \<open>A sequence of updates reaches the store one after the other.\<close>

definition store_updates :: "update_request list \<Rightarrow> room \<Rightarrow> room" where
  "store_updates ws r = foldl (\<lambda>r w. store_update w r) r ws"


section \<open>Invariants\<close>

text \<open>
  In the closure of a run: the handle in \<^verbatim>\<open>introTimeout\<close> is positive and was returned by
  an earlier \<^verbatim>\<open>setTimeout\<close>, and the only timeout that can be pending is the one it names,
  with a delay of 5000 milliseconds. This holds while no other run schedules timeouts.
\<close>

definition timer_inv :: "client \<Rightarrow> bool" where
  "timer_inv s =
     (0 < next_handle s
      \<and> (introTimeout s = None \<longrightarrow> timers s = [])
      \<and> (\<forall>h. introTimeout s = Some h \<longrightarrow>
            0 < h \<and> h < next_handle s \<and> (timers s = [] \<or> timers s = [(h, 5000)])))"

text \<open>Until the read of the first run resolves, no timeout and no channel exists.\<close>

definition static_inv :: "client \<Rightarrow> bool" where
  "static_inv s =
     (timer_inv s
      \<and> (awaiting s \<longrightarrow> timers s = [] \<and> channel s = None \<and> next_handle s = 1))"

text \<open>A run whose read failed, in a component that has had no other run.\<close>

definition inert :: "string \<Rightarrow> client \<Rightarrow> bool" where
  "inert err s =
     (\<not> awaiting s \<and> channel s = None \<and> introTimeout s = None \<and> timers s = []
      \<and> in_flight s = 0 \<and> phase s = Waiting \<and> requests s = []
      \<and> console s = [(''load room error'', err)])"


text \<open>Every request was sent for the room of one of the runs.\<close>

definition rooms_of :: "page \<Rightarrow> string set" where
  "rooms_of p = run_roomId ` set (effects p)"

definition requests_inv :: "page \<Rightarrow> bool" where
  "requests_inv p = (set (requests (shared p)) \<subseteq> start_request ` rooms_of p)"

text \<open>A row used for the concrete lifetimes below.\<close>

abbreviation demo_room :: "string \<Rightarrow> int \<Rightarrow> room" where
  "demo_room st n \<equiv>
     \<lparr>room_id = ''r1'', status = st, required_players = n, game_title = ''title'',
      suit = ''hearts'', game_name = ''name'', rules = ''text''\<rparr>"

section \<open>Closures and lifetimes\<close>

lemma page_of_closure: "page_of (closure st v) = st"
  by (simp add: page_of_def closure_def)

lemma run_of_closure: "run_of (closure st v) = v"
  by (simp add: run_of_def closure_def)

lemma closure_split: "closure (page_of s) (run_of s) = s"
  by (simp add: page_of_def run_of_def closure_def)

lemma closure_shared:
  "clientId (closure st v) = clientId st" "room (closure st v) = room st"
  "phase (closure st v) = phase st" "playersCount (closure st v) = playersCount st"
  "roomRef (closure st v) = roomRef st" "phaseRef (closure st v) = phaseRef st"
  "timers (closure st v) = timers st" "next_handle (closure st v) = next_handle st"
  "requests (closure st v) = requests st" "in_flight (closure st v) = in_flight st"
  "tracked (closure st v) = tracked st" "console (closure st v) = console st"
  by (simp_all add: closure_def)

lemma closure_local:
  "roomId (closure st v) = run_roomId v" "introTimeout (closure st v) = run_introTimeout v"
  "channel (closure st v) = run_channel v" "awaiting (closure st v) = run_awaiting v"
  "removed (closure st v) = run_removed v"
  by (simp_all add: closure_def)

lemma page_of_shared:
  "clientId (page_of s) = clientId s" "room (page_of s) = room s"
  "phase (page_of s) = phase s" "playersCount (page_of s) = playersCount s"
  "roomRef (page_of s) = roomRef s" "phaseRef (page_of s) = phaseRef s"
  "timers (page_of s) = timers s" "next_handle (page_of s) = next_handle s"
  "requests (page_of s) = requests s" "in_flight (page_of s) = in_flight s"
  "tracked (page_of s) = tracked s" "console (page_of s) = console s"
  by (simp_all add: page_of_def)

lemma run_of_local:
  "run_roomId (run_of s) = roomId s" "run_introTimeout (run_of s) = introTimeout s"
  "run_channel (run_of s) = channel s" "run_awaiting (run_of s) = awaiting s"
  "run_removed (run_of s) = removed s"
  by (simp_all add: run_of_def)

lemma shared_commit: "shared (commit k s p) = page_of s"
  by (simp add: commit_def)

lemma mounted_commit: "mounted (commit k s p) = mounted p"
  by (simp add: commit_def)

lemma length_commit: "length (effects (commit k s p)) = length (effects p)"
  by (simp add: commit_def)

lemma view_commit_same: "k < length (effects p) \<Longrightarrow> view (commit k s p) k = s"
  by (simp add: view_def commit_def closure_split)

lemma effects_commit_other: "j \<noteq> k \<Longrightarrow> effects (commit k s p) ! j = effects p ! j"
  by (simp add: commit_def)

lemma run_Nil: "run [] p = p"
  by (simp add: run_def)

lemma run_Cons: "run (e # evs) p = run evs (step p e)"
  by (simp add: run_def)

lemma run_snoc: "run (evs @ [e]) p = step (run evs p) e"
  by (simp add: run_def)

lemma clear_introTimeout_other:
  "next_handle (clear_introTimeout s) = next_handle s"
  "introTimeout (clear_introTimeout s) = introTimeout s"
  "awaiting (clear_introTimeout s) = awaiting s"
  "phase (clear_introTimeout s) = phase s"
  "phaseRef (clear_introTimeout s) = phaseRef s"
  "room (clear_introTimeout s) = room s"
  "roomRef (clear_introTimeout s) = roomRef s"
  "channel (clear_introTimeout s) = channel s"
  "removed (clear_introTimeout s) = removed s"
  "requests (clear_introTimeout s) = requests s"
  "in_flight (clear_introTimeout s) = in_flight s"
  "console (clear_introTimeout s) = console s"
  "roomId (clear_introTimeout s) = roomId s"
  "clientId (clear_introTimeout s) = clientId s"
  by (simp_all add: clear_introTimeout_def clearTimeout_def split: option.splits)

text \<open>No callback changes the room its run was started for.\<close>

lemma roomId_deliver: "roomId (deliver cb s) = roomId s"
proof (cases cb)
  case (InitResolved res)
  then show ?thesis by (cases res) (simp_all add: setTimeout_rules_def Let_def)
next
  case (PostgresChanges newRoom)
  then show ?thesis
    by (simp add: postgres_changes_def setTimeout_rules_def clear_introTimeout_other Let_def)
qed (simp_all add: presence_sync_def send_update_def subscribe_callback_def Let_def
      split: option.splits)

lemma roomId_cleanup: "roomId (cleanup s) = roomId s"
  by (simp add: cleanup_def clear_introTimeout_other Let_def split: option.splits)

lemma requests_deliver:
  "requests (deliver cb s) = requests s \<or>
   requests (deliver cb s) = requests s @ [start_request (roomId s)]"
proof (cases cb)
  case (InitResolved res)
  then show ?thesis by (cases res) (simp_all add: setTimeout_rules_def Let_def)
next
  case (PostgresChanges newRoom)
  then show ?thesis
    by (simp add: postgres_changes_def setTimeout_rules_def clear_introTimeout_other Let_def)
qed (simp_all add: presence_sync_def send_update_def subscribe_callback_def Let_def
      split: option.splits)

lemma requests_cleanup: "requests (cleanup s) = requests s"
  by (simp add: cleanup_def clear_introTimeout_other Let_def split: option.splits)

section \<open>The requests of a lifetime\<close>

lemma rooms_of_commit:
  assumes "k < length (effects p)" and "roomId s = run_roomId (effects p ! k)"
  shows "rooms_of (commit k s p) = rooms_of p"
proof -
  have "map run_roomId ((effects p)[k := run_of s]) = map run_roomId (effects p)"
    using assms by (simp add: map_update run_of_local list_update_same_conv)
  then have "set (map run_roomId (effects (commit k s p))) = set (map run_roomId (effects p))"
    by (simp add: commit_def)
  then show ?thesis by (simp add: rooms_of_def)
qed

lemma rooms_of_cleanup_current: "rooms_of (cleanup_current p) = rooms_of p"
proof (cases "effects p = []")
  case True
  then show ?thesis by (simp add: cleanup_current_def)
next
  case False
  then have k: "length (effects p) - 1 < length (effects p)" by (cases "effects p") simp_all
  show ?thesis
    using False rooms_of_commit [OF k, of "cleanup (view p (length (effects p) - 1))"]
    by (simp add: cleanup_current_def roomId_cleanup view_def closure_local)
qed

lemma requests_cleanup_current: "requests (shared (cleanup_current p)) = requests (shared p)"
  by (simp add: cleanup_current_def shared_commit page_of_shared requests_cleanup view_def
      closure_shared)

lemma rooms_of_step: "rooms_of p \<subseteq> rooms_of (step p e)"
proof (cases e)
  case (Call k cb)
  show ?thesis
  proof (cases "k < length (effects p)")
    case True
    from rooms_of_commit [OF True, of "deliver cb (view p k)"]
    show ?thesis using Call True by (simp add: roomId_deliver view_def closure_local)
  next
    case False
    with Call show ?thesis by simp
  qed
next
  case (ChangeRoom rid)
  have "rooms_of (start_effect rid q) = insert rid (rooms_of q)" for q
    by (auto simp: start_effect_def rooms_of_def new_effect_def)
  moreover have "rooms_of (p\<lparr>shared := x\<rparr>) = rooms_of p" for x
    by (simp add: rooms_of_def)
  ultimately show ?thesis
    using ChangeRoom by (auto simp: rooms_of_cleanup_current)
next
  case Unmount
  have "rooms_of (q\<lparr>mounted := False\<rparr>) = rooms_of q" for q
    by (simp add: rooms_of_def)
  then show ?thesis using Unmount by (simp add: rooms_of_cleanup_current)
qed (simp_all add: rooms_of_def)

lemma requests_inv_step:
  assumes "requests_inv p"
  shows "requests_inv (step p e)"
proof -
  have sub: "rooms_of p \<subseteq> rooms_of (step p e)" by (rule rooms_of_step)
  have "set (requests (shared (step p e))) \<subseteq> set (requests (shared p)) \<union> start_request ` rooms_of p"
  proof (cases e)
    case (Call k cb)
    show ?thesis
    proof (cases "k < length (effects p)")
      case True
      then have "run_roomId (effects p ! k) \<in> rooms_of p" by (simp add: rooms_of_def)
      then show ?thesis
        using Call True requests_deliver [of cb "view p k"]
        by (auto simp: shared_commit page_of_shared view_def closure_shared closure_local)
    next
      case False
      with Call show ?thesis by simp
    qed
  next
    case (TimerFired h)
    then show ?thesis by (simp add: timeout_callback_def clearTimeout_def)
  next
    case (UpdateSettled err)
    then show ?thesis by (simp add: update_settled_def Let_def split: option.splits)
  next
    case Render
    then show ?thesis by (simp add: render_def)
  next
    case (ChangeRoom rid)
    then show ?thesis
      by (simp add: start_effect_def requests_cleanup_current render_def)
  next
    case Unmount
    then show ?thesis by (simp add: requests_cleanup_current)
  qed
  then show ?thesis using assms sub unfolding requests_inv_def by blast
qed

lemma requests_inv_run: "requests_inv p \<Longrightarrow> requests_inv (run evs p)"
  unfolding run_def by (induction evs arbitrary: p) (simp_all add: requests_inv_step)

lemma requests_inv_mount: "requests_inv (mount rid cid)"
  by (simp add: requests_inv_def mount_def)

lemma rooms_of_run: "rooms_of (run evs p) \<subseteq> rooms_of p \<union> set (room_changes evs)"
proof (induction evs arbitrary: p)
  case Nil
  then show ?case by (simp add: run_def)
next
  case (Cons e evs)
  have "rooms_of (step p e) \<subseteq> rooms_of p \<union> set (room_changes [e])"
  proof (cases e)
    case (Call k cb)
    show ?thesis
    proof (cases "k < length (effects p)")
      case True
      from rooms_of_commit [OF True, of "deliver cb (view p k)"]
      show ?thesis using Call True by (simp add: roomId_deliver view_def closure_local)
    next
      case False
      with Call show ?thesis by simp
    qed
  next
    case (ChangeRoom rid)
    have "rooms_of (start_effect rid q) = insert rid (rooms_of q)" for q
      by (auto simp: start_effect_def rooms_of_def new_effect_def)
    moreover have "rooms_of (p\<lparr>shared := x\<rparr>) = rooms_of p" for x
      by (simp add: rooms_of_def)
    ultimately show ?thesis
      using ChangeRoom by (auto simp: rooms_of_cleanup_current)
  next
    case Unmount
    have "rooms_of (q\<lparr>mounted := False\<rparr>) = rooms_of q" for q
      by (simp add: rooms_of_def)
    then show ?thesis using Unmount by (simp add: rooms_of_cleanup_current)
  qed (simp_all add: rooms_of_def)
  moreover have "room_changes (e # evs) = room_changes [e] @ room_changes evs"
    by (cases e) simp_all
  ultimately show ?case using Cons.IH [of "step p e"] by (auto simp: run_Cons)
qed

lemma reachable_requests:
  assumes "w \<in> set (requests (shared (run evs (mount rid cid))))"
  shows "\<exists>rid' \<in> insert rid (set (room_changes evs)). w = start_request rid'"
proof -
  have "requests_inv (run evs (mount rid cid))"
    by (rule requests_inv_run [OF requests_inv_mount])
  then obtain r where r: "r \<in> rooms_of (run evs (mount rid cid))" "w = start_request r"
    using assms by (auto simp: requests_inv_def)
  moreover have "rooms_of (mount rid cid) = {rid}"
    by (simp add: rooms_of_def mount_def new_effect_def)
  ultimately show ?thesis using rooms_of_run [of evs "mount rid cid"] by auto
qed

section \<open>Lifetimes without a change of room\<close>

lemma closure_commute:
  "closure (timeout_callback st) v = timeout_callback (closure st v)"
  "closure (clearTimeout h st) v = clearTimeout h (closure st v)"
  "closure (update_settled e st) v = update_settled e (closure st v)"
  "closure (render st) v = render (closure st v)"
  by (simp_all add: closure_def timeout_callback_def clearTimeout_def update_settled_def
      render_def Let_def split: option.splits)

lemma view_shared_update: "view (p\<lparr>shared := x\<rparr>) k = closure x (effects p ! k)"
  by (simp add: view_def)

lemma view_mounted_update: "view (p\<lparr>mounted := b\<rparr>) k = view p k"
  by (simp add: view_def)

lemma room_changes_quiet: "room_changes evs = [] \<Longrightarrow> \<forall>e\<in>set evs. quiet (\<lambda>cb. True) e"
  by (induction evs rule: room_changes.induct) simp_all

text \<open>
  An invariant of the closure of the only run is an invariant of a lifetime without a
  change of room.
\<close>

lemma single_run_step:
  assumes inv: "I (view p 0)" and one: "length (effects p) = 1" and e: "quiet ok e"
    and cb: "\<And>cb s. I s \<Longrightarrow> ok cb \<Longrightarrow> I (deliver cb s)"
    and fire: "\<And>h s. I s \<Longrightarrow> h \<in> fst ` set (timers s) \<Longrightarrow> I (timeout_callback (clearTimeout h s))"
    and settle: "\<And>err s. I s \<Longrightarrow> 0 < in_flight s \<Longrightarrow> I (update_settled err s)"
    and rend: "\<And>s. I s \<Longrightarrow> I (render s)"
    and clean: "\<And>s. I s \<Longrightarrow> I (cleanup s)"
  shows "I (view (step p e) 0) \<and> length (effects (step p e)) = 1"
proof (cases e)
  case (Call k cb')
  show ?thesis
  proof (cases "k < length (effects p)")
    case True
    then have k: "k = 0" using one by simp
    have "ok cb'" using e Call by simp
    from cb [OF inv this] show ?thesis
      using Call True one by (simp add: k view_commit_same length_commit)
  next
    case False
    with Call inv one show ?thesis by simp
  qed
next
  case (TimerFired h)
  show ?thesis
  proof (cases "h \<in> fst ` set (timers (shared p))")
    case True
    then have "h \<in> fst ` set (timers (view p 0))" by (simp add: view_def closure_shared)
    from fire [OF inv this] show ?thesis
      using TimerFired True one
      by (simp add: view_shared_update closure_commute) (simp add: view_def)
  next
    case False
    with TimerFired inv one show ?thesis by simp
  qed
next
  case (UpdateSettled err)
  show ?thesis
  proof (cases "0 < in_flight (shared p)")
    case True
    then have "0 < in_flight (view p 0)" by (simp add: view_def closure_shared)
    from settle [OF inv this] show ?thesis
      using UpdateSettled True one
      by (simp add: view_shared_update closure_commute) (simp add: view_def)
  next
    case False
    with UpdateSettled inv one show ?thesis by simp
  qed
next
  case Render
  from rend [OF inv] show ?thesis
    using Render inv one
    by (simp add: view_shared_update closure_commute) (simp add: view_def)
next
  case (ChangeRoom rid)
  with e show ?thesis by simp
next
  case Unmount
  have "effects p \<noteq> []" using one by auto
  then have "cleanup_current p = commit 0 (cleanup (view p 0)) p"
    using one by (simp add: cleanup_current_def)
  with clean [OF inv] show ?thesis
    using Unmount inv one by (simp add: view_mounted_update view_commit_same length_commit)
qed

lemma single_run_lift:
  assumes inv: "I (view p 0)" and one: "length (effects p) = 1"
    and evs: "\<forall>e\<in>set evs. quiet ok e"
    and cb: "\<And>cb s. I s \<Longrightarrow> ok cb \<Longrightarrow> I (deliver cb s)"
    and fire: "\<And>h s. I s \<Longrightarrow> h \<in> fst ` set (timers s) \<Longrightarrow> I (timeout_callback (clearTimeout h s))"
    and settle: "\<And>err s. I s \<Longrightarrow> 0 < in_flight s \<Longrightarrow> I (update_settled err s)"
    and rend: "\<And>s. I s \<Longrightarrow> I (render s)"
    and clean: "\<And>s. I s \<Longrightarrow> I (cleanup s)"
  shows "I (view (run evs p) 0) \<and> length (effects (run evs p)) = 1"
  using inv one evs
proof (induction evs arbitrary: p)
  case Nil
  then show ?case by (simp add: run_def)
next
  case (Cons e evs)
  have "quiet ok e" using Cons.prems(3) by simp
  from single_run_step [of I p ok e, OF Cons.prems(1,2) this cb fire settle rend clean]
  have "I (view (step p e) 0) \<and> length (effects (step p e)) = 1" by blast
  then show ?case using Cons.IH [of "step p e"] Cons.prems(3) by (simp add: run_Cons)
qed

section \<open>Invariants of a lifetime without a change of room\<close>

lemma clear_introTimeout_timers:
  "timer_inv s \<Longrightarrow> timers (clear_introTimeout s) = []"
  by (auto simp: timer_inv_def clear_introTimeout_def clearTimeout_def split: option.splits)

lemma timer_inv_clear: "timer_inv s \<Longrightarrow> timer_inv (clear_introTimeout s)"
  using clear_introTimeout_timers [of s]
  by (simp add: timer_inv_def clear_introTimeout_other)

lemma timer_inv_setTimeout:
  "0 < next_handle s \<Longrightarrow> timers s = [] \<Longrightarrow> timer_inv (setTimeout_rules 5000 s)"
  by (simp add: timer_inv_def setTimeout_rules_def)

lemma timer_inv_postgres_changes:
  assumes "timer_inv s"
  shows "timer_inv (postgres_changes newRoom s)"
proof -
  let ?c = "clear_introTimeout (s\<lparr>room := Some newRoom, phase := Intro\<rparr>)"
  have a: "timer_inv (s\<lparr>room := Some newRoom, phase := Intro\<rparr>)"
    using assms by (simp add: timer_inv_def)
  have "timer_inv (setTimeout_rules 5000 ?c)"
    using timer_inv_clear [OF a] clear_introTimeout_timers [OF a]
    by (intro timer_inv_setTimeout) (simp_all add: timer_inv_def)
  moreover have "timer_inv (x\<lparr>phase := q\<rparr>) = timer_inv x" for x q
    by (simp add: timer_inv_def)
  moreover have "timer_inv (s\<lparr>room := Some newRoom\<rparr>)"
    using assms by (simp add: timer_inv_def)
  ultimately show ?thesis
    by (simp add: postgres_changes_def Let_def)
qed

lemma awaiting_deliver: "\<not> awaiting s \<Longrightarrow> \<not> awaiting (deliver cb s)"
proof (cases cb)
  case (PostgresChanges newRoom)
  assume "\<not> awaiting s"
  with PostgresChanges show ?thesis
    by (simp add: postgres_changes_def setTimeout_rules_def clear_introTimeout_other Let_def)
qed (simp_all add: presence_sync_def send_update_def subscribe_callback_def Let_def
      split: option.splits)

lemma static_inv_deliver:
  assumes "static_inv s"
  shows "static_inv (deliver cb s)"
proof (cases "awaiting s")
  case True
  then have f: "timers s = []" "channel s = None" "next_handle s = 1"
    using assms by (simp_all add: static_inv_def)
  show ?thesis
  proof (cases cb)
    case (InitResolved res)
    show ?thesis
    proof (cases res)
      case (Inl err)
      with InitResolved True assms show ?thesis
        by (auto simp: static_inv_def timer_inv_def)
    next
      case (Inr data)
      with InitResolved True assms f show ?thesis
        by (auto simp: static_inv_def timer_inv_def setTimeout_rules_def Let_def)
    qed
  qed (use assms f in \<open>simp_all add: listening_def\<close>)
next
  case False
  then have t: "timer_inv s" and n: "\<not> awaiting (deliver cb s)"
    using assms awaiting_deliver [of s cb] by (simp_all add: static_inv_def)
  have "timer_inv (deliver cb s)"
  proof (cases cb)
    case (InitResolved res)
    with False t show ?thesis by simp
  next
    case (PresenceSync ids)
    with t show ?thesis
      by (simp add: presence_sync_def send_update_def timer_inv_def Let_def
          split: option.splits)
  next
    case (PostgresChanges newRoom)
    with t show ?thesis by (simp add: timer_inv_postgres_changes)
  next
    case (SubscribeStatus st)
    with t show ?thesis by (simp add: subscribe_callback_def timer_inv_def)
  qed
  with n show ?thesis by (simp add: static_inv_def)
qed

lemma static_inv_fire:
  "static_inv s \<Longrightarrow> static_inv (timeout_callback (clearTimeout h s))"
  by (auto simp: static_inv_def timer_inv_def timeout_callback_def clearTimeout_def
      split: if_splits)

lemma static_inv_settle: "static_inv s \<Longrightarrow> static_inv (update_settled err s)"
  by (simp add: static_inv_def timer_inv_def update_settled_def Let_def split: option.splits)

lemma static_inv_render: "static_inv s \<Longrightarrow> static_inv (render s)"
  by (simp add: static_inv_def timer_inv_def render_def)

lemma static_inv_cleanup:
  assumes "static_inv s"
  shows "static_inv (cleanup s)"
proof -
  have t: "timer_inv (clear_introTimeout s)" and e: "timers (clear_introTimeout s) = []"
    using assms by (simp_all add: static_inv_def timer_inv_clear clear_introTimeout_timers)
  have c: "static_inv (clear_introTimeout s)"
    using assms t e by (simp add: static_inv_def clear_introTimeout_other)
  have "static_inv (x\<lparr>removed := True\<rparr>) = static_inv x" for x
    by (simp add: static_inv_def timer_inv_def)
  with c show ?thesis by (simp add: cleanup_def Let_def split: option.splits)
qed

lemma view_mount:
  "view (mount rid cid) 0 = closure (shared (mount rid cid)) (new_effect rid)"
  "length (effects (mount rid cid)) = 1"
  by (simp_all add: view_def mount_def)

lemma static_inv_mount: "static_inv (view (mount rid cid) 0)"
  by (simp add: view_mount) (simp add: static_inv_def timer_inv_def closure_def mount_def
      new_effect_def)

lemma static_reachable:
  assumes "room_changes evs = []"
  shows "static_inv (view (run evs (mount rid cid)) 0)
       \<and> length (effects (run evs (mount rid cid))) = 1"
proof (rule single_run_lift [where ok = "\<lambda>cb. True"])
  show "static_inv (view (mount rid cid) 0)" by (rule static_inv_mount)
  show "length (effects (mount rid cid)) = 1" by (simp add: view_mount)
  show "\<forall>e\<in>set evs. quiet (\<lambda>cb. True) e" using assms by (rule room_changes_quiet)
qed (simp_all add: static_inv_deliver static_inv_fire static_inv_settle static_inv_render
      static_inv_cleanup)

text \<open>After a failed read the only run ignores every call.\<close>

lemma inert_deliver: "inert err s \<Longrightarrow> inert err (deliver cb s)"
  by (cases cb) (simp_all add: inert_def listening_def)

lemma inert_cleanup: "inert err s \<Longrightarrow> inert err (cleanup s)"
  by (simp add: inert_def cleanup_def clear_introTimeout_def)

lemma inert_reachable:
  assumes "inert err (view p 0)" and "length (effects p) = 1" and "room_changes evs = []"
  shows "inert err (view (run evs p) 0)"
proof -
  have "inert err (view (run evs p) 0) \<and> length (effects (run evs p)) = 1"
  proof (rule single_run_lift [where ok = "\<lambda>cb. True"])
    show "\<forall>e\<in>set evs. quiet (\<lambda>cb. True) e" using assms(3) by (rule room_changes_quiet)
  qed (use assms(1,2) in \<open>simp_all add: inert_deliver inert_cleanup\<close>,
       simp_all add: inert_def render_def)
  then show ?thesis by simp
qed




section \<open>The quorum elector\<close>

text \<open>The definitions unfolded to evaluate a concrete lifetime.\<close>

lemmas eval_defs = run_def view_def commit_def closure_def page_of_def run_of_def
  mount_def new_effect_def cleanup_current_def start_effect_def render_def listening_def
  postgres_changes_def presence_sync_def setTimeout_rules_def clear_introTimeout_def
  clearTimeout_def timeout_callback_def send_update_def smallestId_def cleanup_def
  update_settled_def subscribe_callback_def Let_def




text \<open>
  Claim C10. While the cached room is absent, the presence handler stores the size of the
  snapshot in \<^verbatim>\<open>playersCount\<close> and changes nothing else: no election, no request.
\<close>

theorem sync_without_room:
  assumes "roomRef s = None"
  shows "presence_sync ids s = s\<lparr>playersCount := length ids\<rparr>"
  using assms by (simp add: presence_sync_def Let_def)

theorem sync_without_room_witness:
  "roomRef (view (run [Call 0 (InitResolved (Inr (demo_room ''waiting'' 1)))]
        (mount ''r1'' ''aaa'')) 0) = None
   \<and> listening (view (run [Call 0 (InitResolved (Inr (demo_room ''waiting'' 1)))]
        (mount ''r1'' ''aaa'')) 0)
   \<and> playersCount (presence_sync [''aaa'']
        (view (run [Call 0 (InitResolved (Inr (demo_room ''waiting'' 1)))]
          (mount ''r1'' ''aaa'')) 0)) = 1
   \<and> requests (presence_sync [''aaa'']
        (view (run [Call 0 (InitResolved (Inr (demo_room ''waiting'' 1)))]
          (mount ''r1'' ''aaa'')) 0)) = []"
proof -
  define s where
    "s = view (run [Call 0 (InitResolved (Inr (demo_room ''waiting'' 1)))]
        (mount ''r1'' ''aaa'')) 0"
  have r: "roomRef s = None" and l: "listening s" and q: "requests s = []"
    by (simp_all add: s_def eval_defs)
  have "playersCount (presence_sync [''aaa''] s) = 1
        \<and> requests (presence_sync [''aaa''] s) = []"
    using sync_without_room [OF r, of "[''aaa'']"] q by simp
  with r l show ?thesis unfolding s_def by blast
qed

section \<open>The phase controller\<close>

text \<open>
  Claim C2. A notification with status \<^verbatim>\<open>waiting\<close> sets the phase to \<^verbatim>\<open>waiting\<close>, but
  lines 111-113 do not clear the timeout: in the lifetime below the client goes to
  \<^verbatim>\<open>intro\<close>, is reset to \<^verbatim>\<open>waiting\<close> with the timeout of handle 1 still pending, and
  when that timeout fires the phase is \<^verbatim>\<open>rules\<close> although the cached room still has
  status \<^verbatim>\<open>waiting\<close>.
\<close>

theorem reset_leaves_timer_pending:
  "phase (shared (run [Call 0 (InitResolved (Inr (demo_room ''waiting'' 2))), Render,
        Call 0 (PostgresChanges (demo_room ''started'' 2)), Render,
        Call 0 (PostgresChanges (demo_room ''waiting'' 2)), Render]
      (mount ''r1'' ''aaa''))) = Waiting
   \<and> timers (shared (run [Call 0 (InitResolved (Inr (demo_room ''waiting'' 2))), Render,
        Call 0 (PostgresChanges (demo_room ''started'' 2)), Render,
        Call 0 (PostgresChanges (demo_room ''waiting'' 2)), Render]
      (mount ''r1'' ''aaa''))) = [(1, 5000)]
   \<and> phase (shared (run [Call 0 (InitResolved (Inr (demo_room ''waiting'' 2))), Render,
        Call 0 (PostgresChanges (demo_room ''started'' 2)), Render,
        Call 0 (PostgresChanges (demo_room ''waiting'' 2)), Render,
        TimerFired 1, Render]
      (mount ''r1'' ''aaa''))) = Rules
   \<and> room (shared (run [Call 0 (InitResolved (Inr (demo_room ''waiting'' 2))), Render,
        Call 0 (PostgresChanges (demo_room ''started'' 2)), Render,
        Call 0 (PostgresChanges (demo_room ''waiting'' 2)), Render,
        TimerFired 1, Render]
      (mount ''r1'' ''aaa''))) = Some (demo_room ''waiting'' 2)"
  by (simp add: eval_defs)

text \<open>
  Claim C7. The claim fails when the continuation of \<^verbatim>\<open>init\<close> runs after the cleanup of
  its run. In the lifetime below the route changes from room \<^verbatim>\<open>r1\<close> to room \<^verbatim>\<open>r2\<close> while
  the first read is pending; the cleanup finds no timeout to clear; then both reads
  return a started room and each run schedules its own timeout at line 52. Two timeouts
  are pending, and after the first has fired and set the phase to \<^verbatim>\<open>rules\<close> the second
  is still to fire.
\<close>

theorem leaked_init_second_timer:
  "timers (shared (run [ChangeRoom ''r2'',
        Call 0 (InitResolved (Inr (demo_room ''started'' 2))),
        Call 1 (InitResolved (Inr ((demo_room ''started'' 2)\<lparr>room_id := ''r2''\<rparr>)))]
      (mount ''r1'' ''aaa''))) = [(1, 5000), (2, 5000)]
   \<and> phase (shared (run [ChangeRoom ''r2'',
        Call 0 (InitResolved (Inr (demo_room ''started'' 2))),
        Call 1 (InitResolved (Inr ((demo_room ''started'' 2)\<lparr>room_id := ''r2''\<rparr>))),
        TimerFired 1]
      (mount ''r1'' ''aaa''))) = Rules
   \<and> timers (shared (run [ChangeRoom ''r2'',
        Call 0 (InitResolved (Inr (demo_room ''started'' 2))),
        Call 1 (InitResolved (Inr ((demo_room ''started'' 2)\<lparr>room_id := ''r2''\<rparr>))),
        TimerFired 1]
      (mount ''r1'' ''aaa''))) = [(2, 5000)]"
  by (simp add: eval_defs)

lemma fire_pending:
  assumes "h \<in> fst ` set (timers (shared p))"
  shows "phase (shared (step p (TimerFired h))) = Rules"
  using assms by (simp add: timeout_callback_def clearTimeout_def)





text \<open>
  Claim C4. When the read of a run returns a room whose status is \<^verbatim>\<open>started\<close>, the phase
  is \<^verbatim>\<open>intro\<close> (never \<^verbatim>\<open>rules\<close>) right after the load, one timeout of 5000 milliseconds
  has been scheduled, and its firing sets the phase to \<^verbatim>\<open>rules\<close>; nothing in the room
  says how long the round has been running. In a lifetime without a change of room it is
  the timeout of handle 1 and the only pending one.
\<close>

theorem started_on_load:
  assumes "k < length (effects p)" and "awaiting (view p k)"
    and "status data = ''started''"
  shows "phase (shared (step p (Call k (InitResolved (Inr data))))) = Intro
       \<and> timers (shared (step p (Call k (InitResolved (Inr data)))))
           = timers (shared p) @ [(next_handle (shared p), 5000)]
       \<and> introTimeout (view (step p (Call k (InitResolved (Inr data)))) k)
           = Some (next_handle (shared p))
       \<and> phase (shared (step (step p (Call k (InitResolved (Inr data))))
             (TimerFired (next_handle (shared p))))) = Rules
       \<and> (p = run evs (mount rid cid) \<and> room_changes evs = [] \<longrightarrow>
           next_handle (shared p) = 1
           \<and> timers (shared (step p (Call k (InitResolved (Inr data))))) = [(1, 5000)])"
proof -
  define s where "s = view p k"
  define s' where "s' = init_resolved (Inr data) (s\<lparr>awaiting := False\<rparr>)"
  define p' where "p' = step p (Call k (InitResolved (Inr data)))"
  define nh where "nh = next_handle (shared p)"
  have pc: "p' = commit k s' p"
    using assms(1,2) by (simp add: p'_def s'_def s_def del: init_resolved.simps)
  have vw: "view p' k = s'"
    using assms(1) unfolding pc by (rule view_commit_same)
  have sh: "phase (shared p') = phase s'" "timers (shared p') = timers s'"
    unfolding pc by (simp_all add: shared_commit page_of_shared)
  have ref: "next_handle s = nh" "timers s = timers (shared p)"
    by (simp_all add: s_def nh_def view_def closure_shared)
  have new: "phase s' = Intro \<and> timers s' = timers (shared p) @ [(nh, 5000)]
      \<and> introTimeout s' = Some nh"
    using assms(3) ref by (simp add: s'_def setTimeout_rules_def Let_def)
  have fire: "phase (shared (step p' (TimerFired nh))) = Rules"
  proof (rule fire_pending)
    show "nh \<in> fst ` set (timers (shared p'))" using new by (simp add: sh)
  qed
  have first: "nh = 1 \<and> timers (shared p') = [(1, 5000)]"
    if "p = run evs (mount rid cid)" "room_changes evs = []"
  proof -
    from static_reachable [OF that(2), of rid cid]
    have "static_inv (view p 0)" "length (effects p) = 1" using that(1) by simp_all
    then have "static_inv s" using assms(1) by (simp add: s_def)
    then have "nh = 1 \<and> timers (shared p) = []"
      using assms(2) ref by (simp add: static_inv_def s_def)
    then show ?thesis using new by (simp add: sh)
  qed
  have "phase (shared p') = Intro
       \<and> timers (shared p') = timers (shared p) @ [(nh, 5000)]
       \<and> introTimeout (view p' k) = Some nh
       \<and> phase (shared (step p' (TimerFired nh))) = Rules
       \<and> (p = run evs (mount rid cid) \<and> room_changes evs = [] \<longrightarrow>
           nh = 1 \<and> timers (shared p') = [(1, 5000)])"
    using new fire first unfolding sh vw by blast
  then show ?thesis unfolding p'_def nh_def by blast
qed

theorem started_on_load_witness:
  "awaiting (view (run [] (mount ''r1'' ''aaa'')) 0)
   \<and> phase (shared (step (run [] (mount ''r1'' ''aaa''))
        (Call 0 (InitResolved (Inr (demo_room ''started'' 2)))))) = Intro
   \<and> timers (shared (step (run [] (mount ''r1'' ''aaa''))
        (Call 0 (InitResolved (Inr (demo_room ''started'' 2)))))) = [(1, 5000)]
   \<and> phase (shared (step (step (run [] (mount ''r1'' ''aaa''))
        (Call 0 (InitResolved (Inr (demo_room ''started'' 2))))) (TimerFired 1))) = Rules"
proof -
  define p where "p = run [] (mount ''r1'' ''aaa'')"
  have pd: "p = run [] (mount ''r1'' ''aaa'')" by (simp add: p_def)
  have k: "0 < length (effects p)" and a: "awaiting (view p 0)"
    by (simp_all add: p_def eval_defs)
  have st: "status (demo_room ''started'' 2) = ''started''" by simp
  have c: "room_changes [] = []" by simp
  note th = started_on_load [OF k a st, of "[]" "''r1''" "''aaa''"]
  have n: "next_handle (shared p) = 1"
    and t: "timers (shared (step p (Call 0 (InitResolved (Inr (demo_room ''started'' 2))))))
            = [(1, 5000)]"
    using th pd c by blast+
  have ph: "phase (shared (step p (Call 0 (InitResolved (Inr (demo_room ''started'' 2))))))
            = Intro"
    using th by blast
  have f: "phase (shared (step (step p (Call 0 (InitResolved (Inr (demo_room ''started'' 2)))))
            (TimerFired 1))) = Rules"
    using th unfolding n by blast
  show ?thesis using a ph t f unfolding p_def by blast
qed

section \<open>No quorum, and the requests on the store\<close>




lemma store_update_start:
  "store_update (start_request rid) r = (if room_id r = rid then r\<lparr>status := ''started''\<rparr> else r)"
  by (simp add: store_update_def start_request_def column_def)

lemma store_updates_status:
  assumes "\<forall>w\<in>set ws. \<exists>rid. w = start_request rid"
  shows "(status (store_updates ws r) = status r \<or> status (store_updates ws r) = ''started'')
       \<and> (status r = ''started'' \<longrightarrow> status (store_updates ws r) = ''started'')"
  using assms
proof (induction ws arbitrary: r)
  case Nil
  then show ?case by (simp add: store_updates_def)
next
  case (Cons w ws)
  then obtain rid where w: "w = start_request rid" by auto
  have u: "store_updates (w # ws) r = store_updates ws (store_update w r)"
    by (simp add: store_updates_def)
  have s: "status (store_update w r) = status r \<or> status (store_update w r) = ''started''"
    by (simp add: w store_update_start)
  show ?case
    using Cons.IH [of "store_update w r"] Cons.prems s by (auto simp: u)
qed

text \<open>
  Claim C6. Every request that any client sends in any lifetime sets \<^verbatim>\<open>status\<close> to
  \<^verbatim>\<open>started\<close> and nothing else. So a store that receives only such requests, in any
  number and order, keeps a status or moves it to \<^verbatim>\<open>started\<close>, and a status that is
  \<^verbatim>\<open>started\<close> stays \<^verbatim>\<open>started\<close>.
\<close>

theorem elector_writes_started_only:
  assumes "\<forall>w\<in>set ws. \<exists>rid cid evs. w \<in> set (requests (shared (run evs (mount rid cid))))"
  shows "(\<forall>w\<in>set ws. set_cols w = [(''status'', JStr ''started'')])
       \<and> (status (store_updates ws r) = status r \<or> status (store_updates ws r) = ''started'')
       \<and> (status r = ''started'' \<longrightarrow> status (store_updates ws r) = ''started'')"
proof -
  have a: "\<forall>w\<in>set ws. \<exists>rid. w = start_request rid"
    using assms reachable_requests by blast
  then have "\<forall>w\<in>set ws. set_cols w = [(''status'', JStr ''started'')]"
    by (auto simp: start_request_def)
  then show ?thesis using store_updates_status [OF a, of r] by simp
qed

theorem elector_writes_started_only_witness:
  "requests (shared (run [Call 0 (InitResolved (Inr (demo_room ''waiting'' 2))), Render,
        Call 0 (PresenceSync [''bbb'', ''aaa''])] (mount ''r1'' ''aaa'')))
     = [start_request ''r1'']
   \<and> status (store_updates [start_request ''r1'', start_request ''r1'']
        (demo_room ''waiting'' 2)) = ''started''"
proof -
  define evs where
    "evs = [Call 0 (InitResolved (Inr (demo_room ''waiting'' 2))), Render,
        Call 0 (PresenceSync [''bbb'', ''aaa''])]"
  have q: "requests (shared (run evs (mount ''r1'' ''aaa''))) = [start_request ''r1'']"
    by (simp add: evs_def eval_defs)
  have "\<forall>w\<in>set [start_request ''r1'', start_request ''r1''].
          \<exists>rid cid evs. w \<in> set (requests (shared (run evs (mount rid cid))))"
    using q by (metis list.set_intros(1) set_ConsD empty_iff empty_set)
  from elector_writes_started_only [OF this, of "demo_room ''waiting'' 2"]
  have "status (store_updates [start_request ''r1'', start_request ''r1'']
          (demo_room ''waiting'' 2)) = ''waiting''
        \<or> status (store_updates [start_request ''r1'', start_request ''r1'']
          (demo_room ''waiting'' 2)) = ''started''"
    by simp
  moreover have "status (store_updates [start_request ''r1'', start_request ''r1'']
          (demo_room ''waiting'' 2)) \<noteq> ''waiting''"
    by (simp add: store_updates_def store_update_start)
  ultimately show ?thesis using q unfolding evs_def by simp
qed

text \<open>
  Claim C9. Every request sent in a lifetime is on table \<^verbatim>\<open>rooms\<close>, sets the single
  column \<^verbatim>\<open>status\<close> and has the single filter \<^verbatim>\<open>id = roomId\<close>, for the room the component
  was mounted for or one the route changed to; no filter reads the status. On the store
  it changes the status of the row with that id, whatever its status was, and leaves the
  id, \<^verbatim>\<open>required_players\<close> and the display columns of every row as they were.
\<close>

theorem update_sets_status_only:
  "\<forall>w\<in>set (requests (shared (run evs (mount rid cid)))).
      \<exists>rid'\<in>insert rid (set (room_changes evs)).
        table w = ''rooms''
        \<and> set_cols w = [(''status'', JStr ''started'')]
        \<and> eq_filters w = [(''id'', JStr rid')]
        \<and> store_update w r = (if room_id r = rid' then r\<lparr>status := ''started''\<rparr> else r)
        \<and> room_id (store_update w r) = room_id r
        \<and> required_players (store_update w r) = required_players r
        \<and> game_title (store_update w r) = game_title r
        \<and> suit (store_update w r) = suit r
        \<and> game_name (store_update w r) = game_name r
        \<and> rules (store_update w r) = rules r"
proof
  fix w assume "w \<in> set (requests (shared (run evs (mount rid cid))))"
  then obtain rid' where m: "rid' \<in> insert rid (set (room_changes evs))"
    and w: "w = start_request rid'"
    using reachable_requests by blast
  have "table w = ''rooms''
        \<and> set_cols w = [(''status'', JStr ''started'')]
        \<and> eq_filters w = [(''id'', JStr rid')]
        \<and> store_update w r = (if room_id r = rid' then r\<lparr>status := ''started''\<rparr> else r)
        \<and> room_id (store_update w r) = room_id r
        \<and> required_players (store_update w r) = required_players r
        \<and> game_title (store_update w r) = game_title r
        \<and> suit (store_update w r) = suit r
        \<and> game_name (store_update w r) = game_name r
        \<and> rules (store_update w r) = rules r"
    unfolding w store_update_start by (simp add: start_request_def)
  with m show "\<exists>rid'\<in>insert rid (set (room_changes evs)).
        table w = ''rooms''
        \<and> set_cols w = [(''status'', JStr ''started'')]
        \<and> eq_filters w = [(''id'', JStr rid')]
        \<and> store_update w r = (if room_id r = rid' then r\<lparr>status := ''started''\<rparr> else r)
        \<and> room_id (store_update w r) = room_id r
        \<and> required_players (store_update w r) = required_players r
        \<and> game_title (store_update w r) = game_title r
        \<and> suit (store_update w r) = suit r
        \<and> game_name (store_update w r) = game_name r
        \<and> rules (store_update w r) = rules r"
    by blast
qed

theorem update_sets_status_only_witness:
  "start_request ''r1'' \<in> set (requests (shared
      (run [Call 0 (InitResolved (Inr (demo_room ''waiting'' 2))), Render,
            Call 0 (PresenceSync [''bbb'', ''aaa''])] (mount ''r1'' ''aaa''))))
   \<and> eq_filters (start_request ''r1'') = [(''id'', JStr ''r1'')]
   \<and> store_update (start_request ''r1'') (demo_room ''started'' 2) = demo_room ''started'' 2
   \<and> store_update (start_request ''r1'') (demo_room ''waiting'' 2) = demo_room ''started'' 2"
proof -
  define evs where
    "evs = [Call 0 (InitResolved (Inr (demo_room ''waiting'' 2))), Render,
            Call 0 (PresenceSync [''bbb'', ''aaa''])]"
  have q: "requests (shared (run evs (mount ''r1'' ''aaa''))) = [start_request ''r1'']"
    by (simp add: evs_def eval_defs)
  then have m: "start_request ''r1'' \<in> set (requests (shared (run evs (mount ''r1'' ''aaa''))))"
    by simp
  have c: "room_changes evs = []" by (simp add: evs_def)
  have "eq_filters (start_request ''r1'') = [(''id'', JStr ''r1'')]
      \<and> store_update (start_request ''r1'') (demo_room ''started'' 2) = demo_room ''started'' 2"
    using update_sets_status_only [of evs "''r1''" "''aaa''" "demo_room ''started'' 2"] m c
    by auto
  moreover have
    "store_update (start_request ''r1'') (demo_room ''waiting'' 2) = demo_room ''started'' 2"
    using update_sets_status_only [of evs "''r1''" "''aaa''" "demo_room ''waiting'' 2"] m c
    by auto
  ultimately show ?thesis using m unfolding evs_def by simp
qed

section \<open>A failed read\<close>

text \<open>
  The phase is state of the component and survives a change of room. Below, the client
  has reached \<^verbatim>\<open>rules\<close> in room \<^verbatim>\<open>r1\<close>, the route changes to \<^verbatim>\<open>r2\<close> and the read of
  \<^verbatim>\<open>r2\<close> fails: the error is logged and the phase is still \<^verbatim>\<open>rules\<close>.
\<close>

theorem failed_read_keeps_old_phase:
  "awaiting (view (run [Call 0 (InitResolved (Inr (demo_room ''started'' 2))), Render,
        TimerFired 1, Render, ChangeRoom ''r2''] (mount ''r1'' ''aaa'')) 1)
   \<and> phase (shared (run [Call 0 (InitResolved (Inr (demo_room ''started'' 2))), Render,
        TimerFired 1, Render, ChangeRoom ''r2'', Call 1 (InitResolved (Inl ''not found'')),
        Render] (mount ''r1'' ''aaa''))) = Rules
   \<and> console (shared (run [Call 0 (InitResolved (Inr (demo_room ''started'' 2))), Render,
        TimerFired 1, Render, ChangeRoom ''r2'', Call 1 (InitResolved (Inl ''not found'')),
        Render] (mount ''r1'' ''aaa''))) = [(''load room error'', ''not found'')]"
  by (simp add: eval_defs)

text \<open>
  Claim C8, amended. A failed read writes the error to the console and does nothing
  else: the state of the component, the phase included, stays as it was, and the run
  gets no channel and no timeout. In a component mounted for the room, with no change of
  room, the phase therefore stays \<^verbatim>\<open>waiting\<close> and no request is sent, whatever events
  follow.
\<close>

theorem failed_read_only_logs:
  "(k < length (effects p) \<longrightarrow> awaiting (view p k) \<longrightarrow>
      shared (step p (Call k (InitResolved (Inl err))))
        = (shared p)\<lparr>console := console (shared p) @ [(''load room error'', err)]\<rparr>
      \<and> channel (view (step p (Call k (InitResolved (Inl err)))) k) = channel (view p k)
      \<and> introTimeout (view (step p (Call k (InitResolved (Inl err)))) k)
          = introTimeout (view p k)
      \<and> \<not> awaiting (view (step p (Call k (InitResolved (Inl err)))) k))
   \<and> (rid \<noteq> [] \<longrightarrow> room_changes evs = [] \<longrightarrow>
      phase (shared (run (Call 0 (InitResolved (Inl err)) # evs) (mount rid cid))) = Waiting
      \<and> requests (shared (run (Call 0 (InitResolved (Inl err)) # evs) (mount rid cid))) = []
      \<and> console (shared (run (Call 0 (InitResolved (Inl err)) # evs) (mount rid cid)))
          = [(''load room error'', err)]
      \<and> channel (view (run (Call 0 (InitResolved (Inl err)) # evs) (mount rid cid)) 0)
          = None)"
proof (intro conjI impI)
  assume k: "k < length (effects p)" and a: "awaiting (view p k)"
  define s' where "s' = init_resolved (Inl err) ((view p k)\<lparr>awaiting := False\<rparr>)"
  have pc: "step p (Call k (InitResolved (Inl err))) = commit k s' p"
    using k a by (simp add: s'_def)
  have vw: "view (commit k s' p) k = s'" using k by (rule view_commit_same)
  show "shared (step p (Call k (InitResolved (Inl err))))
        = (shared p)\<lparr>console := console (shared p) @ [(''load room error'', err)]\<rparr>"
    unfolding pc by (simp add: shared_commit s'_def page_of_def view_def closure_def)
  show "channel (view (step p (Call k (InitResolved (Inl err)))) k) = channel (view p k)"
    unfolding pc vw by (simp add: s'_def)
  show "introTimeout (view (step p (Call k (InitResolved (Inl err)))) k)
          = introTimeout (view p k)"
    unfolding pc vw by (simp add: s'_def)
  show "\<not> awaiting (view (step p (Call k (InitResolved (Inl err)))) k)"
    unfolding pc vw by (simp add: s'_def)
next
  assume rid: "rid \<noteq> []" and c: "room_changes evs = []"
  define p1 where "p1 = step (mount rid cid) (Call 0 (InitResolved (Inl err)))"
  have i: "inert err (view p1 0)" and l: "length (effects p1) = 1"
    using rid by (simp_all add: p1_def inert_def eval_defs)
  have r: "run (Call 0 (InitResolved (Inl err)) # evs) (mount rid cid) = run evs p1"
    by (simp add: p1_def run_Cons)
  have "inert err (view (run evs p1) 0)" using i l c by (rule inert_reachable)
  then show "phase (shared (run (Call 0 (InitResolved (Inl err)) # evs) (mount rid cid)))
      = Waiting"
    and "requests (shared (run (Call 0 (InitResolved (Inl err)) # evs) (mount rid cid))) = []"
    and "console (shared (run (Call 0 (InitResolved (Inl err)) # evs) (mount rid cid)))
          = [(''load room error'', err)]"
    and "channel (view (run (Call 0 (InitResolved (Inl err)) # evs) (mount rid cid)) 0)
          = None"
    unfolding r by (simp_all add: inert_def view_def closure_shared)
qed

theorem failed_read_only_logs_witness:
  "awaiting (view (mount ''r1'' ''aaa'') 0)
   \<and> console (shared (step (mount ''r1'' ''aaa'') (Call 0 (InitResolved (Inl ''not found'')))))
       = [(''load room error'', ''not found'')]
   \<and> phase (shared (run [Call 0 (InitResolved (Inl ''not found'')), Render,
        Call 0 (PresenceSync [''aaa'', ''bbb'']),
        Call 0 (PostgresChanges (demo_room ''started'' 2)), TimerFired 1, Unmount]
        (mount ''r1'' ''aaa''))) = Waiting
   \<and> requests (shared (run [Call 0 (InitResolved (Inl ''not found'')), Render,
        Call 0 (PresenceSync [''aaa'', ''bbb'']),
        Call 0 (PostgresChanges (demo_room ''started'' 2)), TimerFired 1, Unmount]
        (mount ''r1'' ''aaa''))) = []"
proof -
  define evs where
    "evs = [Render, Call 0 (PresenceSync [''aaa'', ''bbb'']),
        Call 0 (PostgresChanges (demo_room ''started'' 2)), TimerFired 1, Unmount]"
  define p where "p = mount ''r1'' ''aaa''"
  have k: "0 < length (effects p)" and a: "awaiting (view p 0)"
    and c0: "console (shared p) = []"
    by (simp_all add: p_def eval_defs)
  have c: "room_changes evs = []" by (simp add: evs_def)
  have n: "''r1'' \<noteq> []" by simp
  note th = failed_read_only_logs [of 0 p "''not found''" "''r1''" evs "''aaa''"]
  have "shared (step p (Call 0 (InitResolved (Inl ''not found''))))
        = (shared p)\<lparr>console := console (shared p) @ [(''load room error'', ''not found'')]\<rparr>"
    using th k a by blast
  then have 1: "console (shared (step p (Call 0 (InitResolved (Inl ''not found'')))))
       = [(''load room error'', ''not found'')]"
    using c0 by simp
  have 2: "phase (shared (run (Call 0 (InitResolved (Inl ''not found'')) # evs) p)) = Waiting
    \<and> requests (shared (run (Call 0 (InitResolved (Inl ''not found'')) # evs) p)) = []"
    using th n c unfolding p_def by blast
  show ?thesis using a 1 2 unfolding p_def evs_def by blast
qed

end
